theory Spec2Isabelle
  imports Complex_Main
begin

section \<open>The iTAV forecasting engine: data model and operations\<close>

text \<open>
  Shallow embedding of \<^verbatim>\<open>src/forecasting/services/forecast_engine.py\<close> with the
  parts of \<^verbatim>\<open>schemas/forecast.py\<close>, \<^verbatim>\<open>core/config.py\<close> and
  \<^verbatim>\<open>core/cache.py\<close> it uses.

  Python floats are modelled as real numbers: rounding is not modelled. Where Python turns
  a float that leaves the double range into an exception (\<^verbatim>\<open>**\<close>, the conversion of an
  int to a float, \<^verbatim>\<open>math.exp\<close>, \<^verbatim>\<open>math.ceil\<close> of an infinite product) the
  exception is a branch of the model. Python ints are \<open>int\<close>. Dictionaries are association
  lists in insertion order.
\<close>

subsection \<open>Dictionaries\<close>

definition dict_get :: "('k \<times> 'v) list \<Rightarrow> 'k \<Rightarrow> 'v \<Rightarrow> 'v" where
  "dict_get d k dflt = (case map_of d k of None \<Rightarrow> dflt | Some v \<Rightarrow> v)"

subsection \<open>Configuration (core/config.py)\<close>

definition SEGMENT_CALL_RATES :: "(string \<times> real) list" where
  "SEGMENT_CALL_RATES =
     [(''Highly Engaged'', 85), (''Reactive Engagers'', 145),
      (''Content & Complacent'', 95), (''Unengaged'', 180)]"

subsection \<open>Schemas (schemas/forecast.py)\<close>

record SegmentAdjustments =
  highly_engaged :: real
  reactive_engagers :: real
  content_complacent :: real
  unengaged :: real

subsection \<open>SegmentImpactModel\<close>

definition adjustment_map :: "SegmentAdjustments \<Rightarrow> (string \<times> real) list" where
  "adjustment_map sa =
     [(''Highly Engaged'', highly_engaged sa), (''Reactive Engagers'', reactive_engagers sa),
      (''Content & Complacent'', content_complacent sa), (''Unengaged'', unengaged sa)]"

text \<open>The body of the \<^verbatim>\<open>for segment, members in member_distribution.items()\<close> loop.\<close>

definition segment_step :: "SegmentAdjustments \<Rightarrow> real \<Rightarrow> real \<Rightarrow> string \<times> real \<Rightarrow> real" where
  "segment_step sa total_members total_weighted_rate sm =
     (let base_rate = dict_get SEGMENT_CALL_RATES (fst sm) 120;
          adjustment = dict_get (adjustment_map sa) (fst sm) 0;
          adjusted_rate = base_rate * (1 + adjustment / 100);
          weight = snd sm / total_members
      in total_weighted_rate + adjusted_rate * weight)"

definition calculate_segment_impact :: "(string \<times> real) list \<Rightarrow> SegmentAdjustments \<Rightarrow> real" where
  "calculate_segment_impact member_distribution sa =
     (let total_members = sum_list (map snd member_distribution)
      in if total_members = 0 then 0
         else foldl (segment_step sa total_members) 0 member_distribution / 1000)"

text \<open>
  The reference definition, following the specification's words: per segment the adjusted
  base rate \<open>base_rate_per_1000 \<times> (1 + adjustment_pct / 100)\<close>, weighted by the segment's
  share of the total, summed and divided by 1000; segments absent from the rate table use
  the fixed default rate; 0 when total membership is 0.
\<close>

definition spec_base_rate :: "string \<Rightarrow> real" where
  "spec_base_rate seg =
     (if seg = ''Highly Engaged'' then 85 else if seg = ''Reactive Engagers'' then 145
      else if seg = ''Content & Complacent'' then 95 else if seg = ''Unengaged'' then 180
      else 120)"

definition spec_adjustment_pct :: "SegmentAdjustments \<Rightarrow> string \<Rightarrow> real" where
  "spec_adjustment_pct sa seg =
     (if seg = ''Highly Engaged'' then highly_engaged sa
      else if seg = ''Reactive Engagers'' then reactive_engagers sa
      else if seg = ''Content & Complacent'' then content_complacent sa
      else if seg = ''Unengaged'' then unengaged sa
      else 0)"

definition spec_segment_impact :: "(string \<times> real) list \<Rightarrow> SegmentAdjustments \<Rightarrow> real" where
  "spec_segment_impact md sa =
     (let total = (\<Sum>sm\<leftarrow>md. snd sm)
      in if total = 0 then 0
         else (\<Sum>sm\<leftarrow>md. spec_base_rate (fst sm) * (1 + spec_adjustment_pct sa (fst sm) / 100)
                            * (snd sm / total)) / 1000)"

definition zero_adjustments :: SegmentAdjustments where
  "zero_adjustments =
     \<lparr>highly_engaged = 0, reactive_engagers = 0, content_complacent = 0, unengaged = 0\<rparr>"

definition example_distribution :: "(string \<times> real) list" where
  "example_distribution =
     [(''Highly Engaged'', 250), (''Reactive Engagers'', 350),
      (''Content & Complacent'', 250), (''Unengaged'', 150)]"

subsection \<open>AdaptiveForecastModel\<close>

text \<open>
  \<^verbatim>\<open>self.model_weights\<close> is the state of the model; \<^verbatim>\<open>update_weights\<close> takes it and
  returns the new dictionary.
\<close>

definition initial_model_weights :: "(string \<times> real) list" where
  "initial_model_weights =
     [(''seasonal'', 4 / 10), (''trend'', 3 / 10), (''growth'', 2 / 10), (''ml_prediction'', 1 / 10)]"

definition calculate_component_errors :: "(string \<times> real) list \<Rightarrow> (string \<times> real) list" where
  "calculate_component_errors accuracy_data =
     [(''seasonal'', dict_get accuracy_data ''seasonal_error'' (1 / 10)),
      (''trend'', dict_get accuracy_data ''trend_error'' (1 / 10)),
      (''growth'', dict_get accuracy_data ''growth_error'' (1 / 10)),
      (''ml_prediction'', dict_get accuracy_data ''ml_error'' (1 / 10))]"

text \<open>\<^verbatim>\<open>self.model_weights[component] *= c\<close>\<close>

definition dict_scale :: "string \<Rightarrow> real \<Rightarrow> (string \<times> real) list \<Rightarrow> (string \<times> real) list" where
  "dict_scale k c ws = map (\<lambda>kv. if fst kv = k then (fst kv, snd kv * c) else kv) ws"

text \<open>The body of the loop over \<^verbatim>\<open>component_errors.items()\<close>.\<close>

definition adjust_weight :: "(string \<times> real) list \<Rightarrow> string \<times> real \<Rightarrow> (string \<times> real) list" where
  "adjust_weight ws ce =
     (if fst ce \<in> set (map fst ws)
      then (if snd ce < 5 / 100 then dict_scale (fst ce) (11 / 10) ws
            else if snd ce > 15 / 100 then dict_scale (fst ce) (9 / 10) ws
            else ws)
      else ws)"

definition update_weights :: "(string \<times> real) list \<Rightarrow> (string \<times> real) list \<Rightarrow> (string \<times> real) list" where
  "update_weights model_weights recent_accuracy =
     (let component_errors = calculate_component_errors recent_accuracy;
          ws = foldl adjust_weight model_weights component_errors;
          total_weight = sum_list (map snd ws)
      in if total_weight > 0 then map (\<lambda>kv. (fst kv, snd kv / total_weight)) ws else ws)"

text \<open>The invariant of the weights: the four components, each with a positive weight.\<close>

definition weights_inv :: "(string \<times> real) list \<Rightarrow> bool" where
  "weights_inv ws \<longleftrightarrow>
     map fst ws = [''seasonal'', ''trend'', ''growth'', ''ml_prediction'']
     \<and> list_all (\<lambda>v. 0 < v) (map snd ws)"

subsection \<open>Exceptions and checked float operations\<close>

datatype py_error = OverflowError | ZeroDivisionError | ValueError | KeyError | IndexError

definition bind_err :: "py_error + 'a \<Rightarrow> ('a \<Rightarrow> py_error + 'b) \<Rightarrow> py_error + 'b" where
  "bind_err m f = (case m of Inl e \<Rightarrow> Inl e | Inr x \<Rightarrow> f x)"

text \<open>The largest finite double.\<close>

definition float_max :: real where
  "float_max = 2 ^ 1024 - 2 ^ 971"

text \<open>
  The result of an operation that raises \<^verbatim>\<open>OverflowError\<close> when it leaves the double
  range (\<^verbatim>\<open>float ** int\<close>, \<^verbatim>\<open>float(int)\<close>, \<^verbatim>\<open>math.exp\<close>).
\<close>

definition checked_float :: "real \<Rightarrow> py_error + real" where
  "checked_float x = (if \<bar>x\<bar> > float_max then Inl OverflowError else Inr x)"

definition float_pow :: "real \<Rightarrow> int \<Rightarrow> py_error + real" where
  "float_pow x n =
     (if 0 \<le> n then checked_float (x ^ nat n)
      else if x = 0 then Inl ZeroDivisionError
      else checked_float (1 / x ^ nat (- n)))"

definition math_factorial :: "int \<Rightarrow> py_error + int" where
  "math_factorial n = (if n < 0 then Inl ValueError else Inr (fact (nat n)))"

definition float_of_int :: "int \<Rightarrow> py_error + real" where
  "float_of_int n = checked_float (real_of_int n)"

definition float_truediv :: "real \<Rightarrow> real \<Rightarrow> py_error + real" where
  "float_truediv x y = (if y = 0 then Inl ZeroDivisionError else Inr (x / y))"

definition math_exp :: "real \<Rightarrow> py_error + real" where
  "math_exp x = checked_float (exp x)"

subsection \<open>ErlangCStaffingModel\<close>

text \<open>\<^verbatim>\<open>traffic ** k / math.factorial(k)\<close>, evaluated left to right.\<close>

definition erlang_term :: "real \<Rightarrow> int \<Rightarrow> py_error + real" where
  "erlang_term traffic k =
     bind_err (float_pow traffic k) (\<lambda>p.
     bind_err (math_factorial k) (\<lambda>f.
     bind_err (float_of_int f) (\<lambda>ff.
     float_truediv p ff)))"

text \<open>\<^verbatim>\<open>agents / (agents - traffic)\<close>\<close>

definition erlang_wait_factor :: "int \<Rightarrow> real \<Rightarrow> py_error + real" where
  "erlang_wait_factor agents traffic =
     bind_err (float_of_int agents) (\<lambda>a. float_truediv a (a - traffic))"

text \<open>\<^verbatim>\<open>sum(traffic ** k / math.factorial(k) for k in range(agents))\<close>\<close>

fun sum_erlang_terms :: "real \<Rightarrow> int list \<Rightarrow> py_error + real" where
  "sum_erlang_terms traffic [] = Inr 0"
| "sum_erlang_terms traffic (k # ks) =
     bind_err (erlang_term traffic k) (\<lambda>t.
     bind_err (sum_erlang_terms traffic ks) (\<lambda>s. Inr (t + s)))"

text \<open>The body of the \<^verbatim>\<open>try\<close> block of \<^verbatim>\<open>_erlang_c_probability\<close>.\<close>

definition erlang_c_try :: "int \<Rightarrow> real \<Rightarrow> py_error + real" where
  "erlang_c_try agents traffic =
     bind_err (erlang_term traffic agents) (\<lambda>q.
     bind_err (erlang_wait_factor agents traffic) (\<lambda>w.
     bind_err (sum_erlang_terms traffic (map int [0..<nat agents])) (\<lambda>s.
     bind_err (erlang_term traffic agents) (\<lambda>q'.
     bind_err (erlang_wait_factor agents traffic) (\<lambda>w'.
     float_truediv (q * w) (s + q' * w'))))))"

text \<open>
  \<^verbatim>\<open>_erlang_c_probability\<close>: the handler
  \<^verbatim>\<open>except (OverflowError, ZeroDivisionError): return 0.0\<close> catches two exceptions;
  any other propagates.
\<close>

definition erlang_c_probability :: "int \<Rightarrow> real \<Rightarrow> py_error + real" where
  "erlang_c_probability agents traffic =
     (case erlang_c_try agents traffic of
        Inl OverflowError \<Rightarrow> Inr 0
      | Inl ZeroDivisionError \<Rightarrow> Inr 0
      | Inl e \<Rightarrow> Inl e
      | Inr p \<Rightarrow> Inr p)"

text \<open>
  The probability of answering within the target time for a given agent count, as the loop
  body of \<^verbatim>\<open>calculate_required_agents\<close> computes it.
\<close>

definition prob_within_target :: "int \<Rightarrow> real \<Rightarrow> real \<Rightarrow> int \<Rightarrow> py_error + real" where
  "prob_within_target agents traffic_intensity avg_handle_time target_answer_time =
     bind_err (erlang_c_probability agents traffic_intensity) (\<lambda>erlang_c_prob.
     bind_err (math_exp (- (real_of_int agents - traffic_intensity)
                           * real_of_int target_answer_time / avg_handle_time)) (\<lambda>e.
     Inr (1 - erlang_c_prob * e)))"

text \<open>
  The loop \<^verbatim>\<open>for _ in range(max_iterations)\<close>: the first argument counts the
  iterations left, the third is the last \<^verbatim>\<open>prob_within_target\<close> assigned, if any
  (the source asks \<^verbatim>\<open>'prob_within_target' in locals()\<close>).
\<close>

fun search_agents ::
  "nat \<Rightarrow> int \<Rightarrow> real option \<Rightarrow> real \<Rightarrow> real \<Rightarrow> real \<Rightarrow> int \<Rightarrow> py_error + (int \<times> real option)" where
  "search_agents 0 agents prev traffic aht target_sl tat = Inr (agents, prev)"
| "search_agents (Suc n) agents prev traffic aht target_sl tat =
     (if real_of_int agents \<le> traffic
      then search_agents n (agents + 1) prev traffic aht target_sl tat
      else bind_err (prob_within_target agents traffic aht tat) (\<lambda>p.
             if p \<ge> target_sl then Inr (agents, Some p)
             else search_agents n (agents + 1) (Some p) traffic aht target_sl tat))"

text \<open>
  \<^verbatim>\<open>calculate_required_agents\<close>. An int too large for a float, or a product
  \<^verbatim>\<open>call_volume * avg_handle_time\<close> that overflows to infinity (on which
  \<^verbatim>\<open>math.ceil\<close> raises), ends in \<^verbatim>\<open>OverflowError\<close>.
\<close>

definition calculate_required_agents ::
  "int \<Rightarrow> real \<Rightarrow> real \<Rightarrow> int \<Rightarrow> py_error + (int \<times> real \<times> real)" where
  "calculate_required_agents call_volume avg_handle_time target_service_level target_answer_time =
     (if call_volume \<le> 0 \<or> avg_handle_time \<le> 0 then Inr (0, 0, 0)
      else
        bind_err (float_of_int call_volume) (\<lambda>cv.
        bind_err (checked_float (cv * avg_handle_time)) (\<lambda>prod.
          let traffic_intensity = prod / 60 in
          if traffic_intensity \<le> 0 then Inr (1, 0, 1)
          else
            bind_err (search_agents 100 (max 1 \<lceil>traffic_intensity\<rceil>) None traffic_intensity
                        avg_handle_time target_service_level target_answer_time) (\<lambda>r.
              let agents = fst r;
                  utilization = (if agents > 0 then traffic_intensity / real_of_int agents else 0);
                  achieved_service_level = (case snd r of Some p \<Rightarrow> p | None \<Rightarrow> 0)
              in Inr (agents, utilization, achieved_service_level)))))"

text \<open>
  The Erlang-C probability of queueing for \<open>A\<close> agents and offered traffic \<open>T\<close>, as the
  closed formula over the reals.
\<close>

definition erlang_c_ref :: "nat \<Rightarrow> real \<Rightarrow> real" where
  "erlang_c_ref A T =
     (T ^ A / fact A * (real A / (real A - T)))
       / ((\<Sum>k<A. T ^ k / fact k) + T ^ A / fact A * (real A / (real A - T)))"

text \<open>
  The probability of being answered within the target time, with the Erlang-C probability
  of the closed formula:
  \<open>1 - ErlangC(A, T) * exp (- (A - T) * target_answer_time / avg_handle_time)\<close>.
\<close>

definition service_level_ref :: "int \<Rightarrow> real \<Rightarrow> real \<Rightarrow> int \<Rightarrow> real" where
  "service_level_ref A T aht tat =
     1 - erlang_c_ref (nat A) T * exp (- (real_of_int A - T) * real_of_int tat / aht)"

subsection \<open>MonteCarloSimulator\<close>

















subsection \<open>Schemas of the forecast request and result (schemas/forecast.py)\<close>

record CallVolumeFactors =
  seasonal_factor :: real
  engagement_impact :: real
  product_mix_impact :: real
  regulatory_impact :: real

record StaffingParameters =
  avg_handle_time :: real
  hours_per_agent :: int
  utilization_target :: real
  supervisor_ratio :: real
  target_service_level :: real
  target_answer_time :: int

record RegulatoryChanges =
  benefit_changes :: bool
  formulary_updates :: bool
  network_changes :: bool
  premium_changes :: bool

text \<open>A \<^verbatim>\<open>datetime.date\<close>: year, month, day.\<close>

type_synonym py_date = "int \<times> int \<times> int"

record ForecastScenarioCreate =
  name :: string
  description :: "string option"
  base_month :: py_date
  forecast_months :: int
  member_growth_rate :: real
  segment_adjustments :: SegmentAdjustments
  call_volume_factors :: CallVolumeFactors
  staffing_parameters :: StaffingParameters
  regulatory_changes :: RegulatoryChanges
  monte_carlo_iterations :: int
  confidence_level :: real


subsection \<open>ForecastEngine: merging the confidence intervals\<close>







subsection \<open>ForecastEngine: accuracy metrics\<close>










section \<open>Properties\<close>

subsection \<open>Segment impact\<close>

lemma dict_get_rates: "dict_get SEGMENT_CALL_RATES seg 120 = spec_base_rate seg"
  by (simp add: dict_get_def SEGMENT_CALL_RATES_def spec_base_rate_def)

lemma dict_get_adjustment: "dict_get (adjustment_map sa) seg 0 = spec_adjustment_pct sa seg"
  by (simp add: dict_get_def adjustment_map_def spec_adjustment_pct_def)

lemma foldl_segment_step:
  "foldl (segment_step sa t) acc md =
     acc + (\<Sum>sm\<leftarrow>md. spec_base_rate (fst sm) * (1 + spec_adjustment_pct sa (fst sm) / 100)
                        * (snd sm / t))"
proof (induction md arbitrary: acc)
  case Nil
  show ?case by simp
next
  case (Cons sm md)
  have "segment_step sa t acc sm =
          acc + spec_base_rate (fst sm) * (1 + spec_adjustment_pct sa (fst sm) / 100) * (snd sm / t)"
    by (simp add: segment_step_def dict_get_rates dict_get_adjustment)
  with Cons.IH show ?case by simp
qed

text \<open>
  C8. \<^verbatim>\<open>calculate_segment_impact\<close> equals the reference definition on every member
  distribution: with a positive total it is the sum over the segments of
  \<open>base_rate \<times> (1 + adjustment_pct / 100) \<times> share\<close>, divided by 1000; with total 0 it is 0;
  and the 250/350/250/150 distribution with zero adjustments gives 0.12275.
\<close>

theorem calculate_segment_impact_refines_spec:
  "(0 < (\<Sum>sm\<leftarrow>md. snd sm) \<longrightarrow>
      calculate_segment_impact md sa =
        (\<Sum>sm\<leftarrow>md. spec_base_rate (fst sm) * (1 + spec_adjustment_pct sa (fst sm) / 100)
                       * (snd sm / (\<Sum>sm\<leftarrow>md. snd sm))) / 1000)
   \<and> ((\<Sum>sm\<leftarrow>md. snd sm) = 0 \<longrightarrow> calculate_segment_impact md sa = 0)
   \<and> calculate_segment_impact md sa = spec_segment_impact md sa
   \<and> calculate_segment_impact example_distribution zero_adjustments = 12275 / 100000"
proof -
  have eq: "calculate_segment_impact md sa = spec_segment_impact md sa" for md sa
    by (simp add: calculate_segment_impact_def spec_segment_impact_def Let_def foldl_segment_step)
  have ex: "spec_segment_impact example_distribution zero_adjustments = 12275 / 100000"
    by (simp add: spec_segment_impact_def example_distribution_def zero_adjustments_def
        spec_base_rate_def spec_adjustment_pct_def)
  show ?thesis
    using ex by (simp add: eq) (simp add: spec_segment_impact_def Let_def)
qed

theorem calculate_segment_impact_refines_spec_witness:
  "calculate_segment_impact [(''Highly Engaged'', 1), (''Other'', 3)] zero_adjustments
     = 11125 / 100000"
proof -
  have pos: "0 < (\<Sum>sm\<leftarrow>[(''Highly Engaged'', 1::real), (''Other'', 3)]. snd sm)" by simp
  from calculate_segment_impact_refines_spec
         [of "[(''Highly Engaged'', 1), (''Other'', 3)]" zero_adjustments] pos
  show ?thesis
    by (simp add: spec_base_rate_def spec_adjustment_pct_def zero_adjustments_def)
qed

subsection \<open>Adaptive weights\<close>

lemma dict_scale_keys: "map fst (dict_scale k c ws) = map fst ws"
  by (induction ws) (auto simp: dict_scale_def)

lemma dict_scale_pos:
  "0 < c \<Longrightarrow> list_all (\<lambda>v. 0 < v) (map snd ws) \<Longrightarrow> list_all (\<lambda>v. 0 < v) (map snd (dict_scale k c ws))"
  by (induction ws) (auto simp: dict_scale_def)

lemma adjust_weight_inv: "weights_inv ws \<Longrightarrow> weights_inv (adjust_weight ws ce)"
  unfolding weights_inv_def adjust_weight_def
  by (simp add: dict_scale_keys dict_scale_pos del: set_map)

lemma foldl_adjust_weight_inv: "weights_inv ws \<Longrightarrow> weights_inv (foldl adjust_weight ws ces)"
  by (induction ces arbitrary: ws) (simp_all add: adjust_weight_inv)

lemma pos_list_sum_pos:
  "list_all (\<lambda>v. 0 < v) (xs :: real list) \<Longrightarrow> xs \<noteq> [] \<Longrightarrow> 0 < sum_list xs"
proof -
  assume a: "list_all (\<lambda>v. 0 < v) xs" and ne: "xs \<noteq> []"
  from ne obtain y ys where xs: "xs = y # ys" by (cases xs) auto
  have "0 \<le> sum_list ys"
    using a by (intro sum_list_nonneg) (auto simp: xs list_all_iff less_imp_le)
  moreover have "0 < y" using a by (simp add: xs)
  ultimately show ?thesis by (simp add: xs)
qed

lemma sum_list_divide: "sum_list (map (\<lambda>kv. snd kv / t) ws) = sum_list (map snd ws) / (t::real)"
  by (induction ws) (simp_all add: add_divide_distrib)

lemma update_weights_normal:
  assumes "weights_inv ws"
  shows "weights_inv (update_weights ws acc) \<and> sum_list (map snd (update_weights ws acc)) = 1"
proof -
  define ws' where "ws' = foldl adjust_weight ws (calculate_component_errors acc)"
  define t where "t = sum_list (map snd ws')"
  have inv': "weights_inv ws'"
    unfolding ws'_def by (rule foldl_adjust_weight_inv [OF assms])
  then have ne: "map snd ws' \<noteq> []" and pos: "list_all (\<lambda>v. 0 < v) (map snd ws')"
    by (auto simp: weights_inv_def)
  have t: "0 < t"
    unfolding t_def by (rule pos_list_sum_pos [OF pos ne])
  have upd: "update_weights ws acc = map (\<lambda>kv. (fst kv, snd kv / t)) ws'"
    using t by (simp add: update_weights_def Let_def ws'_def t_def)
  have keys: "map fst (update_weights ws acc) = map fst ws'"
    by (simp add: upd comp_def)
  have vals: "map snd (update_weights ws acc) = map (\<lambda>kv. snd kv / t) ws'"
    by (simp add: upd comp_def)
  have "list_all (\<lambda>v. 0 < v) (map (\<lambda>kv. snd kv / t) ws')"
    using pos t by (simp add: list_all_iff)
  moreover have "sum_list (map (\<lambda>kv. snd kv / t) ws') = 1"
    using t by (simp add: sum_list_divide t_def)
  ultimately show ?thesis
    using inv' by (simp add: weights_inv_def keys vals)
qed

lemma initial_inv: "weights_inv initial_model_weights \<and> sum_list (map snd initial_model_weights) = 1"
  by (simp add: weights_inv_def initial_model_weights_def)

lemma foldl_update_weights_inv:
  "weights_inv ws \<and> sum_list (map snd ws) = 1 \<Longrightarrow>
   weights_inv (foldl update_weights ws accs) \<and> sum_list (map snd (foldl update_weights ws accs)) = 1"
proof (induction accs arbitrary: ws)
  case Nil
  then show ?case by simp
next
  case (Cons a accs)
  from Cons.prems have "weights_inv ws" by simp
  from update_weights_normal [OF this, of a] Cons.IH [of "update_weights ws a"]
  show ?case by simp
qed

lemma pos_sum_one_le_one:
  "list_all (\<lambda>v. 0 < v) (xs :: real list) \<Longrightarrow> sum_list xs = 1 \<Longrightarrow> v \<in> set xs \<Longrightarrow> 0 \<le> v \<and> v \<le> 1"
  using member_le_sum_list [of v xs] by (auto simp: list_all_iff less_imp_le)

text \<open>
  C7. Starting from the initial component weights, after every finite sequence of
  \<^verbatim>\<open>update_weights\<close> calls with arbitrary error inputs the dictionary still has the
  four components, the weights sum to 1 and every weight lies in \<open>[0, 1]\<close>.
\<close>

theorem model_weights_normalised:
  "map fst (foldl update_weights initial_model_weights accs)
      = [''seasonal'', ''trend'', ''growth'', ''ml_prediction'']
   \<and> sum_list (map snd (foldl update_weights initial_model_weights accs)) = 1
   \<and> (\<forall>kv \<in> set (foldl update_weights initial_model_weights accs). 0 \<le> snd kv \<and> snd kv \<le> 1)"
proof -
  let ?ws = "foldl update_weights initial_model_weights accs"
  from foldl_update_weights_inv [OF initial_inv, of accs]
  have inv: "weights_inv ?ws" and s: "sum_list (map snd ?ws) = 1" by simp_all
  from inv have pos: "list_all (\<lambda>v. 0 < v) (map snd ?ws)" by (simp add: weights_inv_def)
  have "0 \<le> snd kv \<and> snd kv \<le> 1" if "kv \<in> set ?ws" for kv
    using pos_sum_one_le_one [OF pos s, of "snd kv"] that by simp
  with inv s show ?thesis by (simp add: weights_inv_def)
qed

theorem model_weights_normalised_witness:
  "foldl update_weights initial_model_weights [[(''seasonal_error'', 1 / 100)]]
     = [(''seasonal'', 11 / 26), (''trend'', 15 / 52), (''growth'', 5 / 26), (''ml_prediction'', 5 / 52)]
   \<and> sum_list (map snd (foldl update_weights initial_model_weights [[(''seasonal_error'', 1 / 100)]])) = 1
   \<and> (''seasonal'', 11 / 26) \<in> set (foldl update_weights initial_model_weights [[(''seasonal_error'', 1 / 100)]])
   \<and> (0 :: real) \<le> 11 / 26 \<and> (11 / 26 :: real) \<le> 1"
proof -
  have "foldl update_weights initial_model_weights [[(''seasonal_error'', 1 / 100)]]
     = [(''seasonal'', 11 / 26), (''trend'', 15 / 52), (''growth'', 5 / 26), (''ml_prediction'', 5 / 52)]"
    by (simp add: update_weights_def initial_model_weights_def calculate_component_errors_def
        adjust_weight_def dict_scale_def dict_get_def Let_def)
  with model_weights_normalised [of "[[(''seasonal_error'', 1 / 100)]]"] show ?thesis
    by simp
qed

subsection \<open>Erlang-C: checked arithmetic and the closed formula\<close>

lemma one_le_float_max: "1 \<le> float_max"
  unfolding float_max_def by simp

lemma checked_float_ok: "\<bar>x\<bar> \<le> float_max \<Longrightarrow> checked_float x = Inr x"
  by (simp add: checked_float_def)

lemma checked_float_over: "float_max < \<bar>x\<bar> \<Longrightarrow> checked_float x = Inl OverflowError"
  by (simp add: checked_float_def)

lemma fact_170: "(fact 170 :: real) \<le> float_max"
  unfolding float_max_def by (simp add: fact_numeral)

lemma fact_171: "float_max < (fact 171 :: real)"
  unfolding float_max_def by (simp add: fact_numeral)

lemma fact_small: "k \<le> 170 \<Longrightarrow> (fact k :: real) \<le> float_max"
  using fact_mono [of k 170, where 'a = real] fact_170 by simp

lemma fact_big: "171 \<le> k \<Longrightarrow> float_max < (fact k :: real)"
  using fact_mono [of 171 k, where 'a = real] fact_171 by simp

lemma erlang_term_ok:
  assumes "0 \<le> T" "T ^ k \<le> float_max" "k \<le> 170"
  shows "erlang_term T (int k) = Inr (T ^ k / fact k)"
proof -
  have p: "float_pow T (int k) = Inr (T ^ k)"
    using assms by (simp add: float_pow_def checked_float_ok)
  have f: "float_of_int (fact k) = Inr (fact k)"
    using fact_small [OF assms(3)] by (simp add: float_of_int_def checked_float_ok)
  show ?thesis
    by (simp add: erlang_term_def bind_err_def p math_factorial_def f float_truediv_def)
qed

lemma erlang_term_over:
  assumes "0 \<le> T" "float_max < T ^ k \<or> 171 \<le> k"
  shows "erlang_term T (int k) = Inl OverflowError"
proof (cases "float_max < T ^ k")
  case True
  then have "float_pow T (int k) = Inl OverflowError"
    using assms(1) by (simp add: float_pow_def checked_float_over)
  then show ?thesis by (simp add: erlang_term_def bind_err_def)
next
  case False
  with assms have k: "171 \<le> k" and "T ^ k \<le> float_max" by auto
  then have p: "float_pow T (int k) = Inr (T ^ k)"
    using assms(1) by (simp add: float_pow_def checked_float_ok)
  have f: "float_of_int (fact k) = Inl OverflowError"
    using fact_big [OF k] by (simp add: float_of_int_def checked_float_over)
  show ?thesis
    by (simp add: erlang_term_def bind_err_def p math_factorial_def f)
qed

lemma pow_le_max: "0 \<le> (T::real) \<Longrightarrow> k \<le> A \<Longrightarrow> T ^ k \<le> max 1 (T ^ A)"
proof (cases "T \<le> 1")
  case True
  assume "0 \<le> T"
  with True have "T ^ k \<le> 1" by (simp add: power_le_one)
  then show ?thesis by simp
next
  case False
  assume "k \<le> A"
  with False have "T ^ k \<le> T ^ A" by (simp add: power_increasing)
  then show ?thesis by simp
qed

lemma sum_erlang_terms_ok:
  "0 \<le> T \<Longrightarrow> \<forall>k\<in>set ks. T ^ k \<le> float_max \<and> k \<le> 170 \<Longrightarrow>
   sum_erlang_terms T (map int ks) = Inr (\<Sum>k\<leftarrow>ks. T ^ k / fact k)"
  by (induction ks) (simp_all add: erlang_term_ok bind_err_def)

lemma erlang_wait_factor_ok:
  "A \<le> 170 \<Longrightarrow> T < real A \<Longrightarrow> erlang_wait_factor (int A) T = Inr (real A / (real A - T))"
proof -
  assume a: "A \<le> 170" and t: "T < real A"
  have "real A \<le> float_max"
    using a one_le_float_max fact_small [of A] fact_ge_self [of A]
    by (smt (verit) of_nat_fact of_nat_mono)
  then show ?thesis
    using t by (simp add: erlang_wait_factor_def float_of_int_def checked_float_ok bind_err_def float_truediv_def)
qed

lemma erlang_queue_term_pos:
  "0 < T \<Longrightarrow> T < real A \<Longrightarrow> 0 < T ^ A / fact A * (real A / (real A - T))"
  by (simp add: zero_less_mult_iff zero_less_divide_iff)

lemma erlang_sum_nonneg: "0 \<le> (T::real) \<Longrightarrow> 0 \<le> (\<Sum>k<A. T ^ k / fact k)"
  by (intro sum_nonneg) simp

lemma ratio_bounds: "0 < (q::real) \<Longrightarrow> 0 \<le> s \<Longrightarrow> 0 < q / (s + q) \<and> q / (s + q) \<le> 1"
  by (simp add: zero_less_divide_iff add_nonneg_pos divide_le_eq)

lemma erlang_c_ref_bounds:
  assumes "0 < T" "T < real A"
  shows "0 < erlang_c_ref A T \<and> erlang_c_ref A T \<le> 1"
proof -
  have q: "0 < T ^ A / fact A * (real A / (real A - T))"
    by (rule erlang_queue_term_pos [OF assms])
  have s: "0 \<le> (\<Sum>k<A. T ^ k / fact k)"
    using assms(1) by (intro erlang_sum_nonneg) simp
  from ratio_bounds [OF q s] show ?thesis
    unfolding erlang_c_ref_def .
qed

lemma erlang_c_try_ok:
  assumes "0 < T" "T < real A" "A \<le> 170" "T ^ A \<le> float_max"
  shows "erlang_c_try (int A) T = Inr (erlang_c_ref A T)"
proof -
  let ?q = "T ^ A / fact A"
  let ?w = "real A / (real A - T)"
  let ?s = "\<Sum>k<A. T ^ k / fact k"
  have T0: "0 \<le> T" using assms(1) by simp
  have q: "erlang_term T (int A) = Inr ?q"
    by (rule erlang_term_ok [OF T0 assms(4) assms(3)])
  have w: "erlang_wait_factor (int A) T = Inr ?w"
    by (rule erlang_wait_factor_ok [OF assms(3) assms(2)])
  have "\<forall>k\<in>set [0..<A]. T ^ k \<le> float_max \<and> k \<le> 170"
  proof
    fix k assume "k \<in> set [0..<A]"
    then have k: "k \<le> A" by simp
    from pow_le_max [OF T0 k] assms(4) one_le_float_max have "T ^ k \<le> float_max" by simp
    with k assms(3) show "T ^ k \<le> float_max \<and> k \<le> 170" by simp
  qed
  from sum_erlang_terms_ok [OF T0 this]
  have s: "sum_erlang_terms T (map int [0..<A]) = Inr ?s"
    by (simp add: interv_sum_list_conv_sum_set_nat atLeast0LessThan)
  have "?s + ?q * ?w \<noteq> 0"
    using erlang_queue_term_pos [OF assms(1,2)] erlang_sum_nonneg [OF T0, of A] by simp
  then show ?thesis
    by (simp add: erlang_c_try_def bind_err_def q w s float_truediv_def erlang_c_ref_def)
qed

lemma erlang_c_try_over:
  assumes "0 < T" "171 \<le> A \<or> float_max < T ^ A"
  shows "erlang_c_try (int A) T = Inl OverflowError"
proof -
  have "erlang_term T (int A) = Inl OverflowError"
    using assms by (intro erlang_term_over) auto
  then show ?thesis by (simp add: erlang_c_try_def bind_err_def)
qed

subsection \<open>Erlang-C: the handler and the search loop\<close>

lemma erlang_c_probability_char:
  assumes "0 < T" "T < real A"
  shows "erlang_c_probability (int A) T
           = Inr (if 171 \<le> A \<or> float_max < T ^ A then 0 else erlang_c_ref A T)"
proof (cases "171 \<le> A \<or> float_max < T ^ A")
  case True
  from erlang_c_try_over [OF assms(1) True] True show ?thesis
    by (simp add: erlang_c_probability_def)
next
  case False
  then have "A \<le> 170" "T ^ A \<le> float_max" by auto
  from erlang_c_try_ok [OF assms this] False show ?thesis
    by (simp add: erlang_c_probability_def)
qed

lemma erlang_c_probability_range:
  assumes "0 < T" "T < real_of_int a"
  shows "\<exists>c. erlang_c_probability a T = Inr c \<and> 0 \<le> c \<and> c \<le> 1"
proof -
  from assms have "0 \<le> a" by linarith
  then obtain A where a: "a = int A" using nonneg_int_cases by blast
  with assms have TA: "T < real A" by simp
  from erlang_c_probability_char [OF assms(1) TA] erlang_c_ref_bounds [OF assms(1) TA]
  show ?thesis by (auto simp: a)
qed

lemma math_exp_nonpos: "x \<le> 0 \<Longrightarrow> math_exp x = Inr (exp x)"
proof -
  assume "x \<le> 0"
  then have "exp x \<le> 1" by simp
  with one_le_float_max have "exp x \<le> float_max" by linarith
  then have "\<bar>exp x\<bar> \<le> float_max" by simp
  then show ?thesis by (simp add: math_exp_def checked_float_ok)
qed

lemma prob_within_target_returns:
  assumes "0 < T" "T < real_of_int a" "0 < aht" "0 \<le> tat"
  shows "\<exists>p. prob_within_target a T aht tat = Inr p"
proof -
  from erlang_c_probability_range [OF assms(1,2)]
  obtain c where c: "erlang_c_probability a T = Inr c" by blast
  have "- (real_of_int a - T) * real_of_int tat / aht \<le> 0"
    using assms by (simp add: divide_nonpos_pos mult_nonpos_nonneg)
  from math_exp_nonpos [OF this] show ?thesis
    by (simp add: prob_within_target_def bind_err_def c)
qed

lemma search_agents_returns:
  "0 < T \<Longrightarrow> 0 < aht \<Longrightarrow> 0 \<le> tat \<Longrightarrow> \<exists>r. search_agents n a prev T aht tsl tat = Inr r"
proof (induction n arbitrary: a prev)
  case 0
  show ?case by simp
next
  case (Suc n)
  show ?case
  proof (cases "real_of_int a \<le> T")
    case True
    with Suc.IH [OF Suc.prems, of "a + 1" prev] show ?thesis by simp
  next
    case False
    then have "T < real_of_int a" by simp
    from prob_within_target_returns [OF Suc.prems(1) this Suc.prems(2,3)]
    obtain p where p: "prob_within_target a T aht tat = Inr p" by blast
    from Suc.IH [OF Suc.prems, of "a + 1" "Some p"] False show ?thesis
      by (simp add: p bind_err_def)
  qed
qed

text \<open>What the loop has established when it ends, started above the traffic intensity.\<close>

lemma search_agents_char:
  assumes "T < real_of_int a" "search_agents n a prev T aht tsl tat = Inr (A, l)"
  shows "a \<le> A \<and> A \<le> a + int n
         \<and> (\<forall>B. a \<le> B \<and> B < A \<longrightarrow> (\<exists>p. prob_within_target B T aht tat = Inr p \<and> p < tsl))
         \<and> ((\<exists>p. l = Some p \<and> prob_within_target A T aht tat = Inr p \<and> tsl \<le> p)
              \<or> (if n = 0 then l = prev else \<exists>p. l = Some p \<and> p < tsl))"
  using assms
proof (induction n arbitrary: a prev)
  case 0
  then show ?case by auto
next
  case (Suc n)
  from Suc.prems(1) have na: "\<not> real_of_int a \<le> T" by simp
  from Suc.prems(2) na obtain p where p: "prob_within_target a T aht tat = Inr p"
    by (cases "prob_within_target a T aht tat") (simp_all add: bind_err_def)
  show ?case
  proof (cases "tsl \<le> p")
    case True
    with Suc.prems(2) na p have "A = a" "l = Some p" by (simp_all add: bind_err_def)
    with p True show ?thesis by auto
  next
    case False
    with Suc.prems(2) na p
    have rec: "search_agents n (a + 1) (Some p) T aht tsl tat = Inr (A, l)"
      by (simp add: bind_err_def)
    from Suc.prems(1) have "T < real_of_int (a + 1)" by simp
    note IH = Suc.IH [OF this rec]
    have below: "\<exists>q. prob_within_target B T aht tat = Inr q \<and> q < tsl" if "a \<le> B" "B < A" for B
    proof (cases "B = a")
      case True
      with p False show ?thesis by simp
    next
      case False
      with that have "a + 1 \<le> B \<and> B < A" by simp
      with IH show ?thesis by blast
    qed
    from IH False have "(\<exists>p. l = Some p \<and> prob_within_target A T aht tat = Inr p \<and> tsl \<le> p)
              \<or> (\<exists>p. l = Some p \<and> p < tsl)"
      by (cases "n = 0") auto
    with IH below show ?thesis by auto
  qed
qed

lemma search_agents_continue:
  "real_of_int a \<le> T \<Longrightarrow> 0 < n \<Longrightarrow>
   search_agents n a prev T aht tsl tat = search_agents (n - 1) (a + 1) prev T aht tsl tat"
  by (cases n) simp_all

text \<open>The loop as it is entered: at \<open>max 1 \<lceil>T\<rceil>\<close>, which may equal \<open>T\<close>.\<close>

lemma search_agents_from_ceiling:
  assumes "0 < T" "search_agents 100 (max 1 \<lceil>T\<rceil>) None T aht tsl tat = Inr (A, l)"
  shows "max 1 \<lceil>T\<rceil> \<le> A \<and> T < real_of_int A
         \<and> (\<forall>B. max 1 \<lceil>T\<rceil> \<le> B \<and> T < real_of_int B \<and> B < A \<longrightarrow>
                (\<exists>p. prob_within_target B T aht tat = Inr p \<and> p < tsl))
         \<and> (\<exists>p. l = Some p \<and> (tsl \<le> p \<longrightarrow> prob_within_target A T aht tat = Inr p))"
proof -
  define a0 where "a0 = max 1 \<lceil>T\<rceil>"
  have ge: "T \<le> real_of_int a0" unfolding a0_def by linarith
  have "\<exists>a1 n1. a0 \<le> a1 \<and> T < real_of_int a1 \<and> 0 < n1
           \<and> (\<forall>B. a0 \<le> B \<and> T < real_of_int B \<longrightarrow> a1 \<le> B)
           \<and> search_agents n1 a1 None T aht tsl tat = Inr (A, l)"
  proof (cases "real_of_int a0 \<le> T")
    case True
    from search_agents_continue [OF True, of 100 None aht tsl tat] assms(2)
    have s: "search_agents 99 (a0 + 1) None T aht tsl tat = Inr (A, l)"
      by (simp add: a0_def)
    have "a0 + 1 \<le> B" if "T < real_of_int B" for B
    proof -
      from True that have "real_of_int a0 < real_of_int B" by simp
      then show ?thesis by simp
    qed
    moreover from ge have "T < real_of_int (a0 + 1)" by simp
    ultimately show ?thesis using s by (intro exI [of _ "a0 + 1"] exI [of _ 99]) simp
  next
    case False
    then have "T < real_of_int a0" by simp
    with assms(2) show ?thesis by (intro exI [of _ a0] exI [of _ 100]) (simp add: a0_def)
  qed
  then obtain a1 n1 where a1: "a0 \<le> a1" "T < real_of_int a1" "0 < n1"
      and least: "\<And>B. a0 \<le> B \<Longrightarrow> T < real_of_int B \<Longrightarrow> a1 \<le> B"
      and s: "search_agents n1 a1 None T aht tsl tat = Inr (A, l)"
    by blast
  note ch = search_agents_char [OF a1(2) s]
  from ch have A: "a1 \<le> A" by simp
  with a1(1) have c1: "a0 \<le> A" by simp
  from A have "real_of_int a1 \<le> real_of_int A" by simp
  with a1(2) have c2: "T < real_of_int A" by simp
  have c3: "\<exists>p. prob_within_target B T aht tat = Inr p \<and> p < tsl"
    if "a0 \<le> B" "T < real_of_int B" "B < A" for B
  proof -
    from least [OF that(1,2)] that(3) have "a1 \<le> B \<and> B < A" by simp
    with ch show ?thesis by blast
  qed
  from ch a1(3) have c4: "\<exists>p. l = Some p \<and> (tsl \<le> p \<longrightarrow> prob_within_target A T aht tat = Inr p)"
    by auto
  from c1 c2 c3 c4 show ?thesis unfolding a0_def by blast
qed

lemma calculate_required_agents_unfold:
  assumes "0 < cv" "0 < aht" "calculate_required_agents cv aht tsl tat = Inr (A, u, s)"
  shows "0 < real_of_int cv * aht / 60 \<and>
         (\<exists>l. search_agents 100 (max 1 \<lceil>real_of_int cv * aht / 60\<rceil>) None (real_of_int cv * aht / 60)
                 aht tsl tat = Inr (A, l)
              \<and> u = (if A > 0 then real_of_int cv * aht / 60 / real_of_int A else 0)
              \<and> s = (case l of Some p \<Rightarrow> p | None \<Rightarrow> 0))"
proof -
  have pos: "0 < real_of_int cv * aht / 60" using assms(1,2) by simp
  have npos: "\<not> real_of_int cv * aht \<le> 0"
    using assms(1,2) by (simp add: mult_le_0_iff)
  from assms npos have "\<exists>l. search_agents 100 (max 1 \<lceil>real_of_int cv * aht / 60\<rceil>) None (real_of_int cv * aht / 60)
                 aht tsl tat = Inr (A, l)
              \<and> u = (if A > 0 then real_of_int cv * aht / 60 / real_of_int A else 0)
              \<and> s = (case l of Some p \<Rightarrow> p | None \<Rightarrow> 0)"
    by (auto simp: calculate_required_agents_def bind_err_def float_of_int_def checked_float_def Let_def
             split: if_splits sum.splits)
  with pos show ?thesis by simp
qed

subsection \<open>Erlang-C: evaluation at concrete inputs\<close>

lemma search_agents_break:
  "T < real_of_int a \<Longrightarrow> 0 < n \<Longrightarrow> prob_within_target a T aht tat = Inr p \<Longrightarrow> tsl \<le> p \<Longrightarrow>
   search_agents n a prev T aht tsl tat = Inr (a, Some p)"
  by (cases n) (simp_all add: bind_err_def)

lemma search_agents_next:
  "T < real_of_int a \<Longrightarrow> 0 < n \<Longrightarrow> prob_within_target a T aht tat = Inr p \<Longrightarrow> p < tsl \<Longrightarrow>
   search_agents n a prev T aht tsl tat = search_agents (n - 1) (a + 1) (Some p) T aht tsl tat"
  by (cases n) (simp_all add: bind_err_def)

lemma calculate_required_agents_returns:
  assumes "0 < cv" "0 < aht" "0 \<le> tat" "real_of_int cv \<le> float_max" "real_of_int cv * aht \<le> float_max"
  shows "\<exists>r. calculate_required_agents cv aht tsl tat = Inr r"
proof -
  have pos: "0 < real_of_int cv * aht" using assms(1,2) by simp
  then have T: "0 < real_of_int cv * aht / 60" by simp
  from search_agents_returns [OF T assms(2,3)]
  obtain r where "search_agents 100 (max 1 \<lceil>real_of_int cv * aht / 60\<rceil>) None
                    (real_of_int cv * aht / 60) aht tsl tat = Inr r"
    by blast
  moreover have "float_of_int cv = Inr (real_of_int cv)"
    using assms(1,4) by (simp add: float_of_int_def checked_float_ok)
  moreover have "checked_float (real_of_int cv * aht) = Inr (real_of_int cv * aht)"
    using pos assms(5) by (simp add: checked_float_ok)
  moreover have "\<not> real_of_int cv * aht \<le> 0" using pos by simp
  ultimately show ?thesis
    using assms(1,2) by (simp add: calculate_required_agents_def bind_err_def Let_def)
qed

lemma checked_float_moderate: "\<bar>x\<bar> \<le> 2 ^ 1023 \<Longrightarrow> checked_float x = Inr x"
proof -
  assume "\<bar>x\<bar> \<le> 2 ^ 1023"
  moreover have "(2 ^ 1023 :: real) \<le> float_max" unfolding float_max_def by simp
  ultimately have "\<bar>x\<bar> \<le> float_max" by (rule order_trans)
  then show ?thesis by (rule checked_float_ok)
qed

lemma erlang_c_ref_1: "erlang_c_ref (Suc 0) (1 / 10) = 1 / 10"
  by (simp add: erlang_c_ref_def)

lemma erlang_c_ref_2: "erlang_c_ref 2 1 = 1 / 3"
  by (simp add: erlang_c_ref_def numeral_2_eq_2)

lemma erlang_c_ref_3: "erlang_c_ref 3 1 = 1 / 11"
  by (simp add: erlang_c_ref_def numeral_3_eq_3 fact_numeral)

lemma float_max_ge_numeral: "\<not> float_max < 1"
  using one_le_float_max by simp

lemma erlang_c_probability_1: "erlang_c_probability 1 (1 / 10) = Inr (1 / 10)"
  using erlang_c_probability_char [of "1 / 10" 1] one_le_float_max
  by (simp add: erlang_c_ref_1)

lemma erlang_c_probability_2: "erlang_c_probability 2 1 = Inr (1 / 3)"
  using erlang_c_probability_char [of 1 2] one_le_float_max
  by (simp add: erlang_c_ref_2)

lemma erlang_c_probability_3: "erlang_c_probability 3 1 = Inr (1 / 11)"
  using erlang_c_probability_char [of 1 3] one_le_float_max
  by (simp add: erlang_c_ref_3)

text \<open>One call with a fractional traffic intensity: 1 call of 6 minutes, \<open>T = 0.1\<close>.\<close>

lemma calculate_required_agents_fractional:
  "calculate_required_agents 1 6 (4 / 5) 20 = Inr (1, 1 / 10, 1 - exp (- 3) / 10)"
proof -
  have e: "math_exp (- 3) = Inr (exp (- 3))" by (rule math_exp_nonpos) simp
  have p: "prob_within_target 1 (1 / 10) 6 20 = Inr (1 - exp (- 3) / 10)"
    by (simp add: prob_within_target_def bind_err_def erlang_c_probability_1 e)
  have "exp (- 3 :: real) \<le> 1" by simp
  then have "(4 / 5 :: real) \<le> 1 - exp (- 3) / 10" by linarith
  from search_agents_break [OF _ _ p this, of 100 None]
  have s: "search_agents 100 1 None (1 / 10) 6 (4 / 5) 20 = Inr (1, Some (1 - exp (- 3) / 10))"
    by simp
  have c: "checked_float 1 = Inr 1" "checked_float 6 = Inr 6"
    by (simp_all add: checked_float_moderate)
  show ?thesis
    using s by (simp add: calculate_required_agents_def bind_err_def float_of_int_def c Let_def)
qed

text \<open>Three calls of 20 minutes, \<open>T = 1\<close>: the loop skips 1, rejects 2 and accepts 3.\<close>

lemma calculate_required_agents_integral:
  "calculate_required_agents 3 20 (4 / 5) 5 = Inr (3, 1 / 3, 1 - exp (- (1 / 2)) / 11)"
proof -
  have e2: "math_exp (- (1 / 4)) = Inr (exp (- (1 / 4)))" by (rule math_exp_nonpos) simp
  have e3: "math_exp (- (1 / 2)) = Inr (exp (- (1 / 2)))" by (rule math_exp_nonpos) simp
  have p2: "prob_within_target 2 1 20 5 = Inr (1 - exp (- (1 / 4)) / 3)"
    by (simp add: prob_within_target_def bind_err_def erlang_c_probability_2 e2)
  have p3: "prob_within_target 3 1 20 5 = Inr (1 - exp (- (1 / 2)) / 11)"
    by (simp add: prob_within_target_def bind_err_def erlang_c_probability_3 e3)
  have "1 + (- (1 / 4)) \<le> exp (- (1 / 4) :: real)" by (rule exp_ge_add_one_self)
  then have lt: "1 - exp (- (1 / 4)) / 3 < (4 / 5 :: real)" by linarith
  have "exp (- (1 / 2) :: real) \<le> 1" by simp
  then have ge: "(4 / 5 :: real) \<le> 1 - exp (- (1 / 2)) / 11" by linarith
  have "search_agents 100 1 None 1 20 (4 / 5) 5 = search_agents 99 2 None 1 20 (4 / 5) 5"
    using search_agents_continue [of 1 1 100 None 20 "4 / 5" 5] by simp
  also have "\<dots> = search_agents 98 3 (Some (1 - exp (- (1 / 4)) / 3)) 1 20 (4 / 5) 5"
    using search_agents_next [OF _ _ p2 lt, of 99 None] by simp
  also have "\<dots> = Inr (3, Some (1 - exp (- (1 / 2)) / 11))"
    using search_agents_break [OF _ _ p3 ge, of 98] by simp
  finally have s: "search_agents 100 1 None 1 20 (4 / 5) 5 = Inr (3, Some (1 - exp (- (1 / 2)) / 11))" .
  have c: "checked_float 3 = Inr 3" "checked_float 60 = Inr 60"
    by (simp_all add: checked_float_moderate)
  show ?thesis
    using s by (simp add: calculate_required_agents_def bind_err_def float_of_int_def c Let_def)
qed

subsection \<open>Erlang-C: the claims\<close>

text \<open>
  C2. The code does not compute the Erlang-C probability by an overflow-safe recurrence:
  \<^verbatim>\<open>_erlang_c_probability\<close> evaluates raw powers and factorials. With 200 agents and
  180 Erlangs the power \<open>180 ^ 200\<close> leaves the double range, the computation raises
  \<^verbatim>\<open>OverflowError\<close>, and the function returns 0.0 from its handler, while the Erlang-C
  probability at this point is positive.
\<close>

theorem erlang_c_probability_overflow:
  "erlang_c_try 200 180 = Inl OverflowError
   \<and> erlang_c_probability 200 180 = Inr 0
   \<and> 0 < erlang_c_ref 200 180
   \<and> erlang_c_probability 200 180 \<noteq> Inr (erlang_c_ref 200 180)"
proof -
  have "float_max < (180 :: real) ^ 200" unfolding float_max_def by simp
  then have t: "erlang_c_try (int 200) 180 = Inl OverflowError"
    by (intro erlang_c_try_over) simp_all
  then have p: "erlang_c_probability 200 180 = Inr 0"
    by (simp add: erlang_c_probability_def)
  have "0 < erlang_c_ref 200 180"
    using erlang_c_ref_bounds [of 180 200] by simp
  with t p show ?thesis by simp
qed

text \<open>
  Where no term overflows, the loop's service level is the one of the closed formula.
\<close>

lemma prob_within_target_ref:
  assumes "0 < T" "T < real_of_int B" "B \<le> 170" "T ^ nat B \<le> float_max"
    and "prob_within_target B T aht tat = Inr p"
  shows "p = service_level_ref B T aht tat"
proof -
  from assms(1,2) have "0 \<le> B" by linarith
  then obtain b where B: "B = int b" using nonneg_int_cases by blast
  from assms(2,3,4) have b: "T < real b" "b \<le> 170" "T ^ b \<le> float_max"
    by (simp_all add: B)
  from erlang_c_probability_char [OF assms(1) b(1)] b(2,3)
  have c: "erlang_c_probability B T = Inr (erlang_c_ref b T)" by (simp add: B)
  from assms(5) c obtain e where
    "math_exp (- (real_of_int B - T) * real_of_int tat / aht) = Inr e"
    and p: "p = 1 - erlang_c_ref b T * e"
    by (auto simp: prob_within_target_def bind_err_def split: sum.splits)
  then have "e = exp (- (real_of_int B - T) * real_of_int tat / aht)"
    by (simp add: math_exp_def checked_float_def split: if_splits)
  with p show ?thesis by (simp add: service_level_ref_def B)
qed

text \<open>
  C3, as stated, fails: the search starts at \<open>max 1 \<lceil>T\<rceil>\<close>, not at \<open>\<lceil>T\<rceil> + 1\<close>. One call
  of 6 minutes is \<open>T = 0.1\<close>; one agent already meets the target, and 1 is returned,
  below \<open>\<lceil>T\<rceil> + 1 = 2\<close>.
\<close>

theorem required_agents_ceiling_counterexample:
  "calculate_required_agents 1 6 (4 / 5) 20 = Inr (1, 1 / 10, 1 - exp (- 3) / 10)
   \<and> \<not> (\<lceil>real_of_int 1 * 6 / 60\<rceil> + 1 \<le> (1 :: int))"
  by (simp add: calculate_required_agents_fractional)

text \<open>
  C3, amended. For \<open>call_volume > 0\<close> and \<open>avg_handle_time > 0\<close>, with
  \<open>T = call_volume * avg_handle_time / 60\<close>: \<^verbatim>\<open>calculate_required_agents\<close> returns
  (it raises nothing when the target answer time is not negative and the product is in
  the double range). When the returned agent count \<open>A\<close> is at most 170 and \<open>T ^ A\<close> is in
  the double range (no Erlang-C term of the search has overflowed), then
  \<open>A \<ge> max 1 \<lceil>T\<rceil>\<close>, \<open>A > T\<close>, the utilization is \<open>T / A\<close>, every smaller candidate
  \<open>B \<ge> max 1 \<lceil>T\<rceil>\<close>, \<open>B > T\<close> has a service level
  \<open>1 - ErlangC(B, T) * exp (- (B - T) * target_answer_time / avg_handle_time)\<close> below the
  target, and a returned service level that meets the target is the service level of \<open>A\<close>:
  \<open>A\<close> is then the minimal agent count from \<open>max 1 \<lceil>T\<rceil>\<close> on that meets the target.
  \<open>ErlangC\<close> is the Erlang-C probability of the closed formula.
\<close>

theorem required_agents_minimal:
  "0 < call_volume \<Longrightarrow> 0 < aht \<Longrightarrow>
   (0 \<le> tat \<and> real_of_int call_volume \<le> float_max
      \<and> real_of_int call_volume * aht \<le> float_max \<longrightarrow>
      (\<exists>r. calculate_required_agents call_volume aht tsl tat = Inr r))
   \<and> (\<forall>A u s. calculate_required_agents call_volume aht tsl tat = Inr (A, u, s)
          \<and> A \<le> 170 \<and> (real_of_int call_volume * aht / 60) ^ nat A \<le> float_max \<longrightarrow>
        max 1 \<lceil>real_of_int call_volume * aht / 60\<rceil> \<le> A
        \<and> real_of_int call_volume * aht / 60 < real_of_int A
        \<and> u = real_of_int call_volume * aht / 60 / real_of_int A
        \<and> (\<forall>B. max 1 \<lceil>real_of_int call_volume * aht / 60\<rceil> \<le> B
                \<and> real_of_int call_volume * aht / 60 < real_of_int B \<and> B < A \<longrightarrow>
              service_level_ref B (real_of_int call_volume * aht / 60) aht tat < tsl)
        \<and> (tsl \<le> s \<longrightarrow>
              s = service_level_ref A (real_of_int call_volume * aht / 60) aht tat))"
proof -
  assume pos: "0 < call_volume" "0 < aht"
  define T where "T = real_of_int call_volume * aht / 60"
  have ret: "\<exists>r. calculate_required_agents call_volume aht tsl tat = Inr r"
    if "0 \<le> tat" "real_of_int call_volume \<le> float_max"
       "real_of_int call_volume * aht \<le> float_max"
    by (rule calculate_required_agents_returns [OF pos that])
  have res: "max 1 \<lceil>T\<rceil> \<le> A \<and> T < real_of_int A \<and> u = T / real_of_int A
        \<and> (\<forall>B. max 1 \<lceil>T\<rceil> \<le> B \<and> T < real_of_int B \<and> B < A \<longrightarrow>
              service_level_ref B T aht tat < tsl)
        \<and> (tsl \<le> s \<longrightarrow> s = service_level_ref A T aht tat)"
    if c: "calculate_required_agents call_volume aht tsl tat = Inr (A, u, s)"
      and small: "A \<le> 170" "T ^ nat A \<le> float_max" for A u s
  proof -
    from calculate_required_agents_unfold [OF pos c] obtain l
      where T0: "0 < T"
        and s: "search_agents 100 (max 1 \<lceil>T\<rceil>) None T aht tsl tat = Inr (A, l)"
        and u: "u = (if A > 0 then T / real_of_int A else 0)"
        and sl: "s = (case l of Some p \<Rightarrow> p | None \<Rightarrow> 0)"
      unfolding T_def by blast
    note fc = search_agents_from_ceiling [OF T0 s]
    from fc have A1: "1 \<le> A" and TA: "T < real_of_int A" by simp_all
    with u have u': "u = T / real_of_int A" by simp
    have below: "service_level_ref B T aht tat < tsl"
      if B: "max 1 \<lceil>T\<rceil> \<le> B" "T < real_of_int B" "B < A" for B
    proof -
      from fc B obtain p where p: "prob_within_target B T aht tat = Inr p" "p < tsl"
        by blast
      from B(1,3) have "nat B \<le> nat A" by simp
      from pow_le_max [OF _ this, of T] T0 have "T ^ nat B \<le> max 1 (T ^ nat A)" by simp
      with small(2) one_le_float_max have "T ^ nat B \<le> float_max" by simp
      moreover from B(3) small(1) have "B \<le> 170" by simp
      ultimately have "p = service_level_ref B T aht tat"
        using prob_within_target_ref [OF T0 B(2) _ _ p(1)] by simp
      with p(2) show ?thesis by simp
    qed
    from fc obtain p where l: "l = Some p"
        and meets: "tsl \<le> p \<longrightarrow> prob_within_target A T aht tat = Inr p"
      by blast
    have "s = service_level_ref A T aht tat" if "tsl \<le> s"
    proof -
      from l sl have "s = p" by simp
      with that meets have "prob_within_target A T aht tat = Inr s" by simp
      from prob_within_target_ref [OF T0 TA small this] show ?thesis .
    qed
    with fc u' below show ?thesis by blast
  qed
  from ret res show ?thesis unfolding T_def by blast
qed

theorem required_agents_minimal_witness:
  "calculate_required_agents 3 20 (4 / 5) 5 = Inr (3, 1 / 3, 1 - exp (- (1 / 2)) / 11)
   \<and> service_level_ref 2 1 20 5 < 4 / 5
   \<and> 1 - exp (- (1 / 2)) / 11 = service_level_ref 3 1 20 5"
proof -
  have c: "calculate_required_agents 3 20 (4 / 5) 5 = Inr (3, 1 / 3, 1 - exp (- (1 / 2)) / 11)"
    by (rule calculate_required_agents_integral)
  have "exp (- (1 / 2) :: real) \<le> 1" by simp
  then have ge: "(4 / 5 :: real) \<le> 1 - exp (- (1 / 2)) / 11" by linarith
  have small: "(3 :: int) \<le> 170" "(real_of_int 3 * 20 / 60) ^ nat 3 \<le> float_max"
    using one_le_float_max by simp_all
  note m = required_agents_minimal [of 3 20 5 "4 / 5", THEN conjunct2, rule_format,
      OF _ _ conjI [OF c conjI [OF small]]]
  have m': "(\<forall>B. 1 \<le> B \<and> 1 < real_of_int B \<and> B < 3 \<longrightarrow> service_level_ref B 1 20 5 < 4 / 5)
        \<and> ((4 / 5 :: real) \<le> 1 - exp (- (1 / 2)) / 11 \<longrightarrow>
             1 - exp (- (1 / 2)) / 11 = service_level_ref 3 1 20 5)"
    using m by simp
  from m' have "service_level_ref 2 1 20 5 < 4 / 5"
    by (elim conjE allE [of _ 2]) simp
  moreover from m' ge have "1 - exp (- (1 / 2)) / 11 = service_level_ref 3 1 20 5"
    by blast
  ultimately show ?thesis using c by simp
qed

text \<open>
  C4, as stated, fails: \<open>avg_handle_time = 0\<close> with \<open>call_volume = 1\<close> takes the first
  guard and returns 0 agents, while \<open>T = 0\<close>: the agent count is not strictly greater
  than the traffic intensity.
\<close>

theorem required_agents_zero_handle_time_counterexample:
  "calculate_required_agents 1 0 (4 / 5) 20 = Inr (0, 0, 0)
   \<and> \<not> (real_of_int 1 * 0 / 60 < real_of_int 0)"
  by (simp add: calculate_required_agents_def)

text \<open>
  C4, amended. For every invocation with \<open>call_volume > 0\<close> and \<open>avg_handle_time > 0\<close>,
  the returned agent count is strictly greater than the traffic intensity
  \<open>T = call_volume * avg_handle_time / 60\<close>, and the returned utilization is \<open>T / agents\<close>
  and lies in \<open>[0, 1]\<close>.
\<close>

theorem required_agents_stable:
  "0 < call_volume \<Longrightarrow> 0 < aht \<Longrightarrow>
   calculate_required_agents call_volume aht tsl tat = Inr (agents, utilization, sl) \<Longrightarrow>
   real_of_int call_volume * aht / 60 < real_of_int agents
   \<and> utilization = real_of_int call_volume * aht / 60 / real_of_int agents
   \<and> 0 \<le> utilization \<and> utilization \<le> 1"
proof -
  assume pos: "0 < call_volume" "0 < aht"
    and c: "calculate_required_agents call_volume aht tsl tat = Inr (agents, utilization, sl)"
  define T where "T = real_of_int call_volume * aht / 60"
  from calculate_required_agents_unfold [OF pos c] obtain l
    where T0: "0 < T"
      and s: "search_agents 100 (max 1 \<lceil>T\<rceil>) None T aht tsl tat = Inr (agents, l)"
      and u: "utilization = (if agents > 0 then T / real_of_int agents else 0)"
    unfolding T_def by blast
  from search_agents_from_ceiling [OF T0 s]
  have a: "1 \<le> agents" "T < real_of_int agents" by simp_all
  with u have u': "utilization = T / real_of_int agents" by simp
  from a T0 have "0 \<le> T / real_of_int agents" "T / real_of_int agents \<le> 1" by simp_all
  with a u' show ?thesis unfolding T_def by simp
qed

theorem required_agents_stable_witness:
  "calculate_required_agents 3 20 (4 / 5) 5 = Inr (3, 1 / 3, 1 - exp (- (1 / 2)) / 11)
   \<and> real_of_int 3 * 20 / 60 < real_of_int 3 \<and> (0 :: real) \<le> 1 / 3 \<and> (1 / 3 :: real) \<le> 1"
  using required_agents_stable [OF _ _ calculate_required_agents_integral]
  by (simp add: calculate_required_agents_integral)

subsection \<open>Monte Carlo: percentiles of one sample are ordered\<close>







subsection \<open>Monte Carlo: the shape of the simulated sample\<close>















subsection \<open>Merging the confidence intervals\<close>










subsection \<open>Accuracy metrics\<close>


end
